theory Spec2Isabelle
  imports Main "HOL-Library.Sublist"
begin

section \<open>Strings as the scraper handles them\<close>

text \<open>
  Python strings are modelled as \<^typ>\<open>string\<close>; the character classes below are the ASCII
  part of Python's classes (\<open>str.isspace\<close>, the regular-expression classes \<open>\d\<close> and
  \<open>\w\<close>), so the model speaks about ASCII documents.
\<close>

definition is_space :: "char \<Rightarrow> bool" where
  "is_space c = (let n = (of_char c :: nat) in (9 \<le> n \<and> n \<le> 13) \<or> (28 \<le> n \<and> n \<le> 32))"

definition is_digit :: "char \<Rightarrow> bool" where
  "is_digit c = (let n = (of_char c :: nat) in 48 \<le> n \<and> n \<le> 57)"

definition is_word :: "char \<Rightarrow> bool" where
  "is_word c = (let n = (of_char c :: nat) in
     (48 \<le> n \<and> n \<le> 57) \<or> (65 \<le> n \<and> n \<le> 90) \<or> (97 \<le> n \<and> n \<le> 122) \<or> n = 95)"

text \<open>\<open>s.strip()\<close>: whitespace removed at both ends.\<close>

definition strip :: "string \<Rightarrow> string" where
  "strip s = rev (dropWhile is_space (rev (dropWhile is_space s)))"

text \<open>
  \<open>s.split(sep)\<close> for a non-empty separator: the pieces between the occurrences of
  \<open>sep\<close>, found from the left without overlap. Python raises \<open>ValueError\<close> on an empty
  separator; both separators of the scraper are non-empty constants, and the model gives
  the unsplit string there.
\<close>

function split :: "string \<Rightarrow> string \<Rightarrow> string list" where
  "split sep s =
     (if sep = [] then [s]
      else if s = [] then [[]]
      else if prefix sep s then [] # split sep (drop (length sep) s)
      else (case split sep (tl s) of
              [] \<Rightarrow> [[hd s]]
            | p # ps \<Rightarrow> (hd s # p) # ps))"
  by pat_completeness auto
termination
  by (relation "measure (\<lambda>(sep, s). length s)") auto

declare split.simps [simp del]

subsection \<open>The three regular expressions\<close>

text \<open>
  \<open>re.search(r"year=(\d{4})", href)\<close>: the four digits after the leftmost \<open>year=\<close> that
  is followed by four digits, or no match.
\<close>

fun search_year :: "string \<Rightarrow> string option" where
  "search_year [] = None"
| "search_year (c # cs) =
     (let g = take 4 (drop 5 (c # cs))
      in if prefix ''year='' (c # cs) \<and> length g = 4 \<and> list_all is_digit g
         then Some g else search_year cs)"

text \<open>
  \<open>re.match(r"^\d+$", name)\<close>: one or more digits from the start, up to the end of the
  string or up to a single final newline (where \<open>$\<close> also matches).
\<close>

definition match_digits :: "string \<Rightarrow> bool" where
  "match_digits name =
     (let r = dropWhile is_digit name
      in takeWhile is_digit name \<noteq> [] \<and> (r = [] \<or> r = [CHR 0x0A]))"

text \<open>
  \<open>re.findall(r"\b(19|20)\d{2}\b", page_html)\<close>. The pattern has one capturing group, so
  \<open>findall\<close> returns what the group captured for each match, scanning from the left
  without overlap. \<open>year_at s\<close> says that the pattern without its leading \<open>\b\<close>
  matches at the head of \<open>s\<close>; the flag \<open>prevw\<close> says that the character before the head
  is a word character, where the leading \<open>\b\<close> fails.
\<close>

definition year_at :: "string \<Rightarrow> bool" where
  "year_at s =
     ((prefix ''19'' s \<or> prefix ''20'' s)
      \<and> length (take 4 s) = 4 \<and> list_all is_digit (take 2 (drop 2 s))
      \<and> (case drop 4 s of [] \<Rightarrow> True | c # _ \<Rightarrow> \<not> is_word c))"

function findall_year :: "bool \<Rightarrow> string \<Rightarrow> string list" where
  "findall_year prevw [] = []"
| "findall_year prevw (c # cs) =
     (if \<not> prevw \<and> year_at (c # cs)
      then take 2 (c # cs) # findall_year True (drop 3 cs)
      else findall_year (is_word c) cs)"
  by pat_completeness auto
termination
  by (relation "measure (\<lambda>(prevw, s). length s)") auto

section \<open>What the browser session answers\<close>

text \<open>
  The Selenium driver is an external collaborator. Each of its calls either returns or
  raises, so each answer is a value of \<open>exn + 'a\<close> with \<open>Inl\<close> the exception raised.
  \<open>WebDriverException\<close> stands for every exception of the driver that the scraper
  names nowhere.
\<close>

datatype exn =
    NoSuchElementException
  | StaleElementReferenceException
  | AttributeError
  | TypeError
  | TimeoutException
  | WebDriverException

text \<open>
  A \<open>WebElement\<close> as the scraper reads it: its \<open>text\<close> property and
  \<open>get_attribute("href")\<close>. Either may raise; either may be \<open>None\<close>.
\<close>

record element =
  text_attr :: "exn + string option"
  href_attr :: "exn + string option"

subsection \<open>helpers.py\<close>

text \<open>
  \<open>elem.text.strip()\<close>, the body of the \<open>try\<close> in \<open>safe_text\<close>: calling \<open>strip\<close> on
  \<open>None\<close> raises \<open>AttributeError\<close>.
\<close>

definition text_strip :: "element \<Rightarrow> exn + string" where
  "text_strip elem =
     (case text_attr elem of
        Inl e \<Rightarrow> Inl e
      | Inr None \<Rightarrow> Inl AttributeError
      | Inr (Some s) \<Rightarrow> Inr (strip s))"

definition safe_text :: "element \<Rightarrow> exn + string" where
  "safe_text elem =
     (case text_strip elem of
        Inr s \<Rightarrow> Inr s
      | Inl e \<Rightarrow>
          if e = NoSuchElementException \<or> e = StaleElementReferenceException \<or> e = AttributeError
          then Inr [] else Inl e)"

subsection \<open>constants.py\<close>

definition BASE_URL :: string where
  "BASE_URL = ''https://www.discogs.com''"

section \<open>Link discovery: \<open>get_artists_by_genre\<close>\<close>

text \<open>
  A section of the genre page (one \<open>ul\<close>) answers
  \<open>find_elements(By.CSS_SELECTOR, ARTIST_LINK_SELECTOR)\<close>. The genre page answers
  \<open>driver.get\<close>, the wait for the first section and, for each selector,
  \<open>driver.find_element(By.CSS_SELECTOR, selector)\<close>.
\<close>

record listing =
  find_links :: "exn + element list"

record genre_page =
  genre_get :: "exn option"
  wait_first_section :: "exn option"
  find_section :: "string \<Rightarrow> exn + listing"

definition LIST_SELECTORS :: "string list" where
  "LIST_SELECTORS = [''ul#most_collected'', ''ul#top_artists'', ''ul#early_masters'', ''ul#top_mp_items'']"

text \<open>\<open>href.split("?")[0].split(BASE_URL)[-1].strip()\<close>\<close>

definition normalized_path :: "string \<Rightarrow> string" where
  "normalized_path href = strip (last (split BASE_URL (hd (split ''?'' href))))"

text \<open>\<open>f"{BASE_URL}{normalized_path}"\<close>\<close>

definition full_url :: "string \<Rightarrow> string" where
  "full_url href = BASE_URL @ normalized_path href"

text \<open>
  A target that points to an artist: the source skips a link when
  \<open>not href or "/artist/" not in href\<close>.
\<close>

definition artist_href :: "string \<Rightarrow> bool" where
  "artist_href href = (href \<noteq> [] \<and> sublist ''/artist/'' href)"

text \<open>
  The inner loop over the links of one section. The state is \<open>(seen_paths, artists)\<close>,
  both mutated in place by the source, so what was collected before an exception stays.
  An exception of \<open>get_attribute\<close> leaves the loop: both handlers of the source go on
  with the next selector.
\<close>

fun scan_links :: "int \<Rightarrow> element list \<Rightarrow> string set \<times> string list \<Rightarrow> string set \<times> string list" where
  "scan_links limit [] st = st"
| "scan_links limit (a # as) (seen_paths, artists) =
     (case href_attr a of
        Inl e \<Rightarrow> (seen_paths, artists)
      | Inr None \<Rightarrow> scan_links limit as (seen_paths, artists)
      | Inr (Some href) \<Rightarrow>
          if \<not> artist_href href
          then scan_links limit as (seen_paths, artists)
          else
            let st = (if normalized_path href \<notin> seen_paths
                      then (insert (normalized_path href) seen_paths, artists @ [full_url href])
                      else (seen_paths, artists))
            in if int (length (snd st)) \<ge> limit then st else scan_links limit as st)"

text \<open>The outer loop over the selectors; a section that is missing or raises adds nothing.\<close>

fun scan_sections ::
  "genre_page \<Rightarrow> int \<Rightarrow> string list \<Rightarrow> string set \<times> string list \<Rightarrow> string set \<times> string list" where
  "scan_sections page limit [] st = st"
| "scan_sections page limit (selector # rest) (seen_paths, artists) =
     (if int (length artists) \<ge> limit then (seen_paths, artists)
      else
        (case find_section page selector of
           Inl e \<Rightarrow> scan_sections page limit rest (seen_paths, artists)
         | Inr current_list \<Rightarrow>
             (case find_links current_list of
                Inl e \<Rightarrow> scan_sections page limit rest (seen_paths, artists)
              | Inr possible_artists \<Rightarrow>
                  scan_sections page limit rest
                    (scan_links limit possible_artists (seen_paths, artists)))))"

text \<open>
  \<open>driver.get(url)\<close> stands outside every \<open>try\<close>, so its exception leaves the function;
  a first section that never appears gives the empty list.
\<close>

definition get_artists_by_genre :: "(string \<Rightarrow> genre_page) \<Rightarrow> string \<Rightarrow> int \<Rightarrow> exn + string list" where
  "get_artists_by_genre driver genre_slug limit =
     (let page = driver (BASE_URL @ ''/genre/'' @ genre_slug)
      in case genre_get page of
           Some e \<Rightarrow> Inl e
         | None \<Rightarrow>
             (case wait_first_section page of
                Some e \<Rightarrow> Inr []
              | None \<Rightarrow> Inr (snd (scan_sections page limit LIST_SELECTORS ({}, [])))))"

section \<open>Album extraction: \<open>get_album_data\<close>\<close>

text \<open>
  A row of the tracklist answers the three queries the loop makes on it: the duration
  element, the element with the title class, and the cells scanned by the fallback.
\<close>

record row =
  dur_elem :: "exn + element"
  title_elem :: "exn + element"
  all_texts :: "exn + element list"

text \<open>The style cell answers \<open>find_elements(By.TAG_NAME, "a")\<close>.\<close>

record cell =
  anchors :: "exn + element list"

text \<open>
  The album document, one field for each call that \<open>get_album_data\<close> makes on the
  driver, in the order of the source.
\<close>

record album_page =
  album_get :: "exn option"
  album_wait_h1 :: "exn option"
  page_source :: "exn + string"
  album_h1s :: "exn + element list"
  album_h1 :: "exn + element"
  year_elem :: "exn + element"
  label_elem :: "exn + element"
  label_elems :: "exn + element list"
  style_td :: "exn + cell"
  track_rows :: "exn + row list"

record track =
  track_number :: int
  track_name :: string
  duration :: "string option"

text \<open>
  The dictionaries returned by the extractors, without \<open>album_id\<close> and \<open>artist_id\<close>:
  they are fresh random values of \<open>uuid.uuid4()\<close> and no extraction step reads them.
\<close>

record album =
  album_name :: "string option"
  release_year :: "string option"
  label :: "string option"
  styles :: "string list"
  tracks :: "track list"
  source_url :: string

text \<open>
  The album name is read outside every \<open>try\<close>:
  \<open>safe_text(driver.find_element(...)) if driver.find_elements(...) else None\<close>.
\<close>

definition extract_album_name :: "album_page \<Rightarrow> exn + string option" where
  "extract_album_name page =
     (case album_h1s page of
        Inl e \<Rightarrow> Inl e
      | Inr [] \<Rightarrow> Inr None
      | Inr (_ # _) \<Rightarrow>
          (case album_h1 page of
             Inl e \<Rightarrow> Inl e
           | Inr h \<Rightarrow> (case safe_text h of Inl e \<Rightarrow> Inl e | Inr t \<Rightarrow> Inr (Some t))))"

text \<open>
  The release year. \<open>primary_year\<close> is the body of the \<open>try\<close>; \<open>re.search\<close> on a
  \<open>None\<close> target raises \<open>TypeError\<close>. Any exception hands over to the fallback on
  the snapshot, which keeps \<open>None\<close> when \<open>findall\<close> finds nothing.
\<close>

definition primary_year :: "album_page \<Rightarrow> exn + string" where
  "primary_year page =
     (case year_elem page of
        Inl e \<Rightarrow> Inl e
      | Inr y \<Rightarrow>
          (case href_attr y of
             Inl e \<Rightarrow> Inl e
           | Inr None \<Rightarrow> Inl TypeError
           | Inr (Some href) \<Rightarrow>
               (case search_year href of
                  Some g \<Rightarrow> Inr g
                | None \<Rightarrow> safe_text y)))"

definition fallback_year :: "string \<Rightarrow> string option" where
  "fallback_year page_html =
     (case findall_year False page_html of
        [] \<Rightarrow> None
      | y # _ \<Rightarrow> Some y)"

definition extract_release_year :: "album_page \<Rightarrow> string \<Rightarrow> string option" where
  "extract_release_year page page_html =
     (case primary_year page of
        Inr y \<Rightarrow> Some y
      | Inl e \<Rightarrow> fallback_year page_html)"

text \<open>The label: the first strategy, then the XPath fallback, then \<open>None\<close>.\<close>

definition extract_label :: "album_page \<Rightarrow> string option" where
  "extract_label page =
     (case (case label_elem page of Inl e \<Rightarrow> Inl e | Inr l \<Rightarrow> safe_text l) of
        Inr t \<Rightarrow> Some t
      | Inl e \<Rightarrow>
          (case label_elems page of
             Inl e' \<Rightarrow> None
           | Inr [] \<Rightarrow> None
           | Inr (l # _) \<Rightarrow> (case safe_text l of Inl e' \<Rightarrow> None | Inr t \<Rightarrow> Some t)))"

text \<open>The styles: the loop over the anchors, and the handler that empties the list.\<close>

fun scan_styles :: "element list \<Rightarrow> string list \<Rightarrow> exn + string list" where
  "scan_styles [] styles' = Inr styles'"
| "scan_styles (s # ss) styles' =
     (case safe_text s of
        Inl e \<Rightarrow> Inl e
      | Inr txt \<Rightarrow>
          if 2 < length txt \<and> length txt < 30 \<and> txt \<notin> set styles'
          then scan_styles ss (styles' @ [txt])
          else scan_styles ss styles')"

definition extract_styles :: "album_page \<Rightarrow> string list" where
  "extract_styles page =
     (case style_td page of
        Inl e \<Rightarrow> []
      | Inr td \<Rightarrow>
          (case anchors td of
             Inl e \<Rightarrow> []
           | Inr style_anchors \<Rightarrow>
               (case scan_styles style_anchors [] of Inl e \<Rightarrow> [] | Inr styles' \<Rightarrow> styles')))"

subsection \<open>The tracklist\<close>

text \<open>
  The duration of a row: a missing duration element is not fatal, any other exception
  leaves the loop over the rows.
\<close>

definition row_duration :: "row \<Rightarrow> exn + string option" where
  "row_duration r =
     (case (case dur_elem r of Inl e \<Rightarrow> Inl e | Inr d \<Rightarrow> safe_text d) of
        Inr dur_raw \<Rightarrow> Inr (Some dur_raw)
      | Inl e \<Rightarrow> if e = NoSuchElementException then Inr None else Inl e)"

text \<open>
  The fallback for the name: the first cell text that is not empty, differs from the
  duration and is longer than five characters.
\<close>

fun first_text :: "string option \<Rightarrow> element list \<Rightarrow> exn + string option" where
  "first_text dur_raw [] = Inr None"
| "first_text dur_raw (t # ts) =
     (case safe_text t of
        Inl e \<Rightarrow> Inl e
      | Inr ttxt \<Rightarrow>
          if ttxt \<noteq> [] \<and> Some ttxt \<noteq> dur_raw \<and> length ttxt > 5
          then Inr (Some ttxt)
          else first_text dur_raw ts)"

definition row_name :: "string option \<Rightarrow> row \<Rightarrow> exn + string option" where
  "row_name dur_raw r =
     (case (case title_elem r of Inl e \<Rightarrow> Inl e | Inr t \<Rightarrow> safe_text t) of
        Inr name \<Rightarrow> Inr (Some name)
      | Inl e \<Rightarrow>
          if e = NoSuchElementException
          then (case all_texts r of Inl e' \<Rightarrow> Inl e' | Inr ts \<Rightarrow> first_text dur_raw ts)
          else Inl e)"

text \<open>The integrity filter: the condition of the \<open>continue\<close>.\<close>

definition integrity_filter :: "string option \<Rightarrow> string option \<Rightarrow> bool" where
  "integrity_filter album_name_raw name =
     (case name of
        None \<Rightarrow> True
      | Some n \<Rightarrow>
          n = [] \<or> match_digits n \<or>
          (case album_name_raw of
             None \<Rightarrow> False
           | Some a \<Rightarrow> a \<noteq> [] \<and> sublist a n \<and> length n < length a + 10))"

text \<open>
  One turn of the loop over the rows, on the state \<open>(tn, tracks)\<close>: the counter and the
  list of tracks so far.
\<close>

definition track_step :: "string option \<Rightarrow> row \<Rightarrow> int \<times> track list \<Rightarrow> exn + int \<times> track list" where
  "track_step album_name_raw r st =
     (case row_duration r of
        Inl e \<Rightarrow> Inl e
      | Inr dur_raw \<Rightarrow>
          (case row_name dur_raw r of
             Inl e \<Rightarrow> Inl e
           | Inr name \<Rightarrow>
               if integrity_filter album_name_raw name then Inr st
               else Inr (fst st + 1,
                         snd st @ [\<lparr>track_number = fst st, track_name = the name, duration = dur_raw\<rparr>])))"

fun scan_rows :: "string option \<Rightarrow> row list \<Rightarrow> int \<times> track list \<Rightarrow> exn + int \<times> track list" where
  "scan_rows album_name_raw [] st = Inr st"
| "scan_rows album_name_raw (r # rs) st =
     (case track_step album_name_raw r st of
        Inl e \<Rightarrow> Inl e
      | Inr st' \<Rightarrow> scan_rows album_name_raw rs st')"

text \<open>The \<open>try\<close> around the tracklist: any exception empties the list.\<close>

definition extract_tracks :: "album_page \<Rightarrow> string option \<Rightarrow> track list" where
  "extract_tracks page album_name_raw =
     (case track_rows page of
        Inl e \<Rightarrow> []
      | Inr rows \<Rightarrow>
          (case scan_rows album_name_raw rows (1, []) of
             Inl e \<Rightarrow> []
           | Inr st \<Rightarrow> snd st))"

text \<open>
  \<open>get_album_data\<close>: \<open>None\<close> when \<open>driver.get\<close> raises; a heading that never appears
  is passed over; the snapshot and the album name are read outside every \<open>try\<close>, so
  their exceptions leave the function. \<open>sorted\<close> is stable, as \<open>sort_key\<close> is.
\<close>

definition get_album_data :: "(string \<Rightarrow> album_page) \<Rightarrow> string \<Rightarrow> exn + album option" where
  "get_album_data driver album_url =
     (let page = driver album_url
      in case album_get page of
           Some e \<Rightarrow> Inr None
         | None \<Rightarrow>
             (case page_source page of
                Inl e \<Rightarrow> Inl e
              | Inr page_html \<Rightarrow>
                  (case extract_album_name page of
                     Inl e \<Rightarrow> Inl e
                   | Inr name \<Rightarrow>
                       Inr (Some
                         \<lparr>album_name = name,
                          release_year = extract_release_year page page_html,
                          label = extract_label page,
                          styles = extract_styles page,
                          tracks = sort_key track_number (extract_tracks page name),
                          source_url = album_url\<rparr>))))"

section \<open>Artist extraction: \<open>get_artist_data\<close>\<close>

text \<open>
  The artist document, one field for each call that \<open>get_artist_data\<close> makes on the
  driver. \<open>handle_language_warning\<close> catches every exception and its result is not
  used; \<open>random_delay\<close> only sleeps.
\<close>

record artist_page =
  artist_get :: "exn option"
  artist_wait_h1 :: "exn option"
  artist_h1 :: "exn + element"
  member_links :: "exn + element list"
  site_links :: "exn + element list"
  candidate_links :: "exn + element list"

record driver =
  artist_doc :: "string \<Rightarrow> artist_page"
  album_doc :: "string \<Rightarrow> album_page"

text \<open>
  \<open>members\<close> ends as \<open>list(set(members))\<close>, a list in an order that Python does not
  fix: the model keeps the set.
\<close>

record artist =
  genre :: string
  artist_name :: "string option"
  members :: "string set"
  websites :: "string list"
  albums :: "album list"
  artist_source_url :: string

definition extract_artist_name :: "artist_page \<Rightarrow> string option" where
  "extract_artist_name page =
     (case (case artist_h1 page of Inl e \<Rightarrow> Inl e | Inr h \<Rightarrow> safe_text h) of
        Inr t \<Rightarrow> Some t
      | Inl e \<Rightarrow> None)"

fun scan_members :: "element list \<Rightarrow> string list \<Rightarrow> exn + string list" where
  "scan_members [] members' = Inr members'"
| "scan_members (a # as) members' =
     (case safe_text a of
        Inl e \<Rightarrow> Inl e
      | Inr t \<Rightarrow> if t \<noteq> [] then scan_members as (members' @ [t]) else scan_members as members')"

definition extract_members :: "artist_page \<Rightarrow> string set" where
  "extract_members page =
     (case member_links page of
        Inl e \<Rightarrow> {}
      | Inr links \<Rightarrow> (case scan_members links [] of Inl e \<Rightarrow> {} | Inr members' \<Rightarrow> set members'))"

fun scan_sites :: "element list \<Rightarrow> string list \<Rightarrow> exn + string list" where
  "scan_sites [] websites' = Inr websites'"
| "scan_sites (a # as) websites' =
     (case href_attr a of
        Inl e \<Rightarrow> Inl e
      | Inr None \<Rightarrow> scan_sites as websites'
      | Inr (Some href) \<Rightarrow>
          if href \<noteq> [] \<and> href \<notin> set websites'
          then scan_sites as (websites' @ [href])
          else scan_sites as websites')"

definition extract_websites :: "artist_page \<Rightarrow> string list" where
  "extract_websites page =
     (case site_links page of
        Inl e \<Rightarrow> []
      | Inr sites \<Rightarrow> (case scan_sites sites [] of Inl e \<Rightarrow> [] | Inr websites' \<Rightarrow> websites'))"

text \<open>\<open>href.split("?")[0]\<close>, the normalization of an album link.\<close>

definition normalized_url :: "string \<Rightarrow> string" where
  "normalized_url href = hd (split ''?'' href)"

text \<open>
  The album links: deduplicated and limited in one pass. The limit is tested only after
  a link has been appended. An exception empties the list.
\<close>

fun scan_album_links ::
  "int \<Rightarrow> element list \<Rightarrow> string set \<times> string list \<Rightarrow> exn + string set \<times> string list" where
  "scan_album_links album_limit [] st = Inr st"
| "scan_album_links album_limit (a # as) (seen, album_links) =
     (case href_attr a of
        Inl e \<Rightarrow> Inl e
      | Inr None \<Rightarrow> scan_album_links album_limit as (seen, album_links)
      | Inr (Some href) \<Rightarrow>
          if href \<noteq> [] \<and> (sublist ''/release/'' href \<or> sublist ''/master/'' href)
          then
            if normalized_url href \<notin> seen
            then
              if int (length (album_links @ [normalized_url href])) \<ge> album_limit
              then Inr (insert (normalized_url href) seen, album_links @ [normalized_url href])
              else scan_album_links album_limit as
                     (insert (normalized_url href) seen, album_links @ [normalized_url href])
            else scan_album_links album_limit as (seen, album_links)
          else scan_album_links album_limit as (seen, album_links))"

definition collect_album_links :: "artist_page \<Rightarrow> int \<Rightarrow> string list" where
  "collect_album_links page album_limit =
     (case candidate_links page of
        Inl e \<Rightarrow> []
      | Inr links \<Rightarrow>
          (case scan_album_links album_limit links ({}, []) of
             Inl e \<Rightarrow> []
           | Inr st \<Rightarrow> snd st))"

text \<open>
  The loop that extracts the albums. \<open>get_album_data\<close> is called outside every
  \<open>try\<close>, so an exception that leaves it leaves \<open>get_artist_data\<close> too. A \<open>None\<close>
  album is dropped; a dictionary is never empty, so every other album is kept.
\<close>

fun collect_albums :: "(string \<Rightarrow> album_page) \<Rightarrow> string list \<Rightarrow> album list \<Rightarrow> exn + album list" where
  "collect_albums d [] albums' = Inr albums'"
| "collect_albums d (a_url # rest) albums' =
     (case get_album_data d a_url of
        Inl e \<Rightarrow> Inl e
      | Inr None \<Rightarrow> collect_albums d rest albums'
      | Inr (Some album_data) \<Rightarrow> collect_albums d rest (albums' @ [album_data]))"

definition get_artist_data :: "driver \<Rightarrow> string \<Rightarrow> string \<Rightarrow> int \<Rightarrow> exn + artist option" where
  "get_artist_data d artist_url genre' album_limit =
     (let page = artist_doc d artist_url
      in case artist_get page of
           Some e \<Rightarrow> Inr None
         | None \<Rightarrow>
             (case artist_wait_h1 page of
                Some e \<Rightarrow> Inr None
              | None \<Rightarrow>
                  (case collect_albums (album_doc d) (collect_album_links page album_limit) [] of
                     Inl e \<Rightarrow> Inl e
                   | Inr albums' \<Rightarrow>
                       Inr (Some
                         \<lparr>genre = genre',
                          artist_name = extract_artist_name page,
                          members = extract_members page,
                          websites = extract_websites page,
                          albums = albums',
                          artist_source_url = artist_url\<rparr>))))"

section \<open>Notions used to state the properties\<close>

text \<open>The first occurrences of a list, in the order in which they appear.\<close>

fun first_seen :: "'a list \<Rightarrow> 'a list" where
  "first_seen [] = []"
| "first_seen (x # xs) = x # first_seen (filter (\<lambda>y. y \<noteq> x) xs)"

text \<open>
  The link targets of a genre page in discovery order: the sections in the order of
  \<open>LIST_SELECTORS\<close>, the links of a section in document order. A section that is
  missing or whose query raises has none; a link without a target has none; a link whose
  target cannot be read ends its section.
\<close>

fun readable_hrefs :: "element list \<Rightarrow> string list" where
  "readable_hrefs [] = []"
| "readable_hrefs (a # as) =
     (case href_attr a of
        Inl e \<Rightarrow> []
      | Inr None \<Rightarrow> readable_hrefs as
      | Inr (Some href) \<Rightarrow> href # readable_hrefs as)"

definition section_hrefs :: "genre_page \<Rightarrow> string \<Rightarrow> string list" where
  "section_hrefs page selector =
     (case find_section page selector of
        Inl e \<Rightarrow> []
      | Inr current_list \<Rightarrow>
          (case find_links current_list of Inl e \<Rightarrow> [] | Inr links \<Rightarrow> readable_hrefs links))"

definition candidate_hrefs :: "genre_page \<Rightarrow> string list" where
  "candidate_hrefs page = concat (map (section_hrefs page) LIST_SELECTORS)"

text \<open>
  A list \<open>ps\<close> of distinct entries extended by the first occurrences of the new entries
  of \<open>xs\<close>, up to \<open>k\<close> entries in all.
\<close>

definition extend_upto :: "nat \<Rightarrow> 'a list \<Rightarrow> 'a list \<Rightarrow> 'a list" where
  "extend_upto k ps xs = take k (ps @ first_seen (filter (\<lambda>x. x \<notin> set ps) xs))"

text \<open>
  The integrity filter as the specification words it: the name is missing, or purely
  numeric, or contains the name of the album and is no more than ten characters longer.
\<close>

definition purely_numeric :: "string \<Rightarrow> bool" where
  "purely_numeric n = (n \<noteq> [] \<and> list_all is_digit n)"

definition stated_discard :: "string option \<Rightarrow> string option \<Rightarrow> bool" where
  "stated_discard album_name_raw name =
     (case name of
        None \<Rightarrow> True
      | Some n \<Rightarrow>
          n = [] \<or> purely_numeric n \<or>
          (case album_name_raw of
             None \<Rightarrow> False
           | Some a \<Rightarrow> sublist a n \<and> length n \<le> length a + 10))"

text \<open>
  The same with the bound of the source: the album has a name that is not empty, and the
  track name is fewer than ten characters longer.
\<close>

definition amended_discard :: "string option \<Rightarrow> string option \<Rightarrow> bool" where
  "amended_discard album_name_raw name =
     (case name of
        None \<Rightarrow> True
      | Some n \<Rightarrow>
          n = [] \<or> purely_numeric n \<or>
          (case album_name_raw of
             None \<Rightarrow> False
           | Some a \<Rightarrow> a \<noteq> [] \<and> sublist a n \<and> length n < length a + 10))"

text \<open>The normalized paths of the artist links of a section, in document order.\<close>

abbreviation paths_of :: "element list \<Rightarrow> string list" where
  "paths_of links \<equiv> map normalized_path (filter artist_href (readable_hrefs links))"

section \<open>Example documents\<close>

text \<open>A link with its text and target; a heading with its text.\<close>

definition anchor :: "string \<Rightarrow> string \<Rightarrow> element" where
  "anchor t h = \<lparr>text_attr = Inr (Some t), href_attr = Inr (Some h)\<rparr>"

definition heading :: "string \<Rightarrow> element" where
  "heading t = \<lparr>text_attr = Inr (Some t), href_attr = Inr None\<rparr>"

text \<open>
  The genre page of the test \<open>test_get_artists_by_genre_collects_and_deduplicates\<close>, with
  a fourth artist appended to the second section.
\<close>

definition two_sections :: genre_page where
  "two_sections =
     \<lparr>genre_get = None,
      wait_first_section = None,
      find_section = (\<lambda>selector.
        if selector = ''ul#most_collected'' then
          Inr \<lparr>find_links = Inr
            [anchor [] ''https://www.discogs.com/artist/1-A?query=x'',
             anchor [] ''https://www.discogs.com/artist/2-B'',
             anchor [] ''https://www.discogs.com/artist/1-A'',
             anchor [] ''https://other.com/link'']\<rparr>
        else if selector = ''ul#top_artists'' then
          Inr \<lparr>find_links = Inr
            [anchor [] ''https://www.discogs.com/artist/3-C'',
             anchor [] ''https://www.discogs.com/artist/2-B'',
             anchor [] ''https://www.discogs.com/artist/4'']\<rparr>
        else Inl NoSuchElementException)\<rparr>"

text \<open>
  A loaded album document with the given snapshot, in which no query finds anything.
\<close>

definition bare_album :: "string \<Rightarrow> album_page" where
  "bare_album html =
     \<lparr>album_get = None,
      album_wait_h1 = None,
      page_source = Inr html,
      album_h1s = Inr [],
      album_h1 = Inl NoSuchElementException,
      year_elem = Inl NoSuchElementException,
      label_elem = Inl NoSuchElementException,
      label_elems = Inr [],
      style_td = Inl NoSuchElementException,
      track_rows = Inr []\<rparr>"

text \<open>A tracklist row with a title element and no duration element.\<close>

definition title_row :: "string \<Rightarrow> row" where
  "title_row name =
     \<lparr>dur_elem = Inl NoSuchElementException,
      title_elem = Inr (heading name),
      all_texts = Inr []\<rparr>"


text \<open>
  An album whose heading is there for \<open>find_elements\<close> and gone for the
  \<open>find_element\<close> that follows.
\<close>

definition vanishing_heading :: album_page where
  "vanishing_heading = (bare_album ''<h1>Help</h1>'') \<lparr>album_h1s := Inr [heading ''Help'']\<rparr>"

text \<open>
  The artist document of the test \<open>test_get_artist_data_members_websites_albums\<close>, and
  one on which every query of a field raises.
\<close>

definition test_band :: artist_page where
  "test_band =
     \<lparr>artist_get = None,
      artist_wait_h1 = None,
      artist_h1 = Inr (heading ''The Test Band''),
      member_links = Inr [anchor ''Member A'' ''/artist/member''],
      site_links = Inr [anchor ''site'' ''https://test.com/site''],
      candidate_links = Inr
        [anchor [] ''/release/100'', anchor [] ''/master/200?x=1'',
         anchor [] ''/release/300'', anchor [] ''/release/400'']\<rparr>"

definition broken_fields :: artist_page where
  "broken_fields =
     \<lparr>artist_get = None,
      artist_wait_h1 = None,
      artist_h1 = Inl NoSuchElementException,
      member_links = Inl WebDriverException,
      site_links = Inl WebDriverException,
      candidate_links = Inl WebDriverException\<rparr>"

definition test_driver :: "artist_page \<Rightarrow> driver" where
  "test_driver page = \<lparr>artist_doc = (\<lambda>url. page), album_doc = (\<lambda>url. bare_album [])\<rparr>"

section \<open>Facts about the string functions\<close>

lemma split_nonempty: "split sep s \<noteq> []"
  by (subst split.simps) (auto split: list.splits)

lemma split_single: "split sep s = [p] \<Longrightarrow> p = s"
proof (induction sep s arbitrary: p rule: split.induct)
  case (1 sep s)
  show ?case
  proof (cases "sep = [] \<or> s = []")
    case True
    with "1.prems" show ?thesis by (subst (asm) split.simps) (auto split: if_splits)
  next
    case False
    show ?thesis
    proof (cases "prefix sep s")
      case True
      with False "1.prems" show ?thesis
        by (subst (asm) split.simps) (simp add: split_nonempty)
    next
      case np: False
      obtain q qs where q: "split sep (tl s) = q # qs"
        using split_nonempty by (cases "split sep (tl s)") auto
      with False np "1.prems" have "qs = []" "p = hd s # q"
        by (subst (asm) split.simps, simp)+
      with "1.IH"(2)[of q] False np q show ?thesis by simp
    qed
  qed
qed

lemma last_split_no_sep: "sep \<noteq> [] \<Longrightarrow> \<not> sublist sep (last (split sep s))"
proof (induction sep s rule: split.induct)
  case (1 sep s)
  show ?case
  proof (cases "s = []")
    case True
    with "1.prems" show ?thesis by (subst split.simps) simp
  next
    case False
    show ?thesis
    proof (cases "prefix sep s")
      case True
      with False "1.prems" "1.IH"(1) show ?thesis
        by (subst split.simps) (simp add: split_nonempty)
    next
      case np: False
      obtain q qs where q: "split sep (tl s) = q # qs"
        using split_nonempty by (cases "split sep (tl s)") auto
      have ih: "\<not> sublist sep (last (q # qs))"
        using "1.IH"(2) "1.prems" False np q by simp
      show ?thesis
      proof (cases "qs = []")
        case True
        with q have "q = tl s" using split_single by blast
        with ih True have "\<not> sublist sep (tl s)" by simp
        with np False have "\<not> sublist sep s"
          by (cases s) (auto simp: sublist_Cons_right)
        moreover have "split sep s = [s]"
          using False np "1.prems" q True \<open>q = tl s\<close> by (subst split.simps) simp
        ultimately show ?thesis by simp
      next
        case qne: False
        have "split sep s = (hd s # q) # qs"
          using False np "1.prems" q by (subst split.simps) simp
        with ih qne show ?thesis by simp
      qed
    qed
  qed
qed

lemma set_last_split: "set (last (split sep s)) \<subseteq> set s"
proof (induction sep s rule: split.induct)
  case (1 sep s)
  show ?case
  proof (cases "sep = [] \<or> s = []")
    case True
    then show ?thesis by (subst split.simps) auto
  next
    case False
    show ?thesis
    proof (cases "prefix sep s")
      case True
      with False have "set (last (split sep (drop (length sep) s))) \<subseteq> set s"
        using "1.IH"(1) set_drop_subset by fastforce
      with True False show ?thesis
        by (subst split.simps) (simp add: split_nonempty)
    next
      case np: False
      obtain q qs where q: "split sep (tl s) = q # qs"
        using split_nonempty by (cases "split sep (tl s)") auto
      have ih: "set (last (q # qs)) \<subseteq> set (tl s)"
        using "1.IH"(2) False np q by simp
      have eq: "split sep s = (hd s # q) # qs"
        using False np q by (subst split.simps) simp
      from False have "set s = insert (hd s) (set (tl s))" by (cases s) auto
      with ih eq show ?thesis by (cases "qs = []") auto
    qed
  qed
qed

lemma split_no_sep: "\<not> sublist sep t \<Longrightarrow> split sep t = [t]"
proof (induction t)
  case Nil
  then show ?case by (subst split.simps) auto
next
  case (Cons c cs)
  then have "\<not> prefix sep (c # cs)" "\<not> sublist sep cs" "sep \<noteq> []"
    by (auto simp: sublist_Cons_right)
  with Cons.IH show ?case by (subst split.simps) simp
qed

lemma split_prefix: "sep \<noteq> [] \<Longrightarrow> split sep (sep @ t) = [] # split sep t"
  by (subst split.simps) simp

lemma hd_split_char: "hd (split [c] s) = takeWhile (\<lambda>x. x \<noteq> c) s"
proof (induction s)
  case Nil
  then show ?case by (subst split.simps) simp
next
  case (Cons a s)
  obtain q qs where q: "split [c] s = q # qs"
    using split_nonempty by (cases "split [c] s") auto
  with Cons show ?case by (subst split.simps) auto
qed

lemma strip_ends: "strip s = [] \<or> (\<not> is_space (hd (strip s)) \<and> \<not> is_space (last (strip s)))"
proof -
  define u where "u = dropWhile is_space s"
  define v where "v = dropWhile is_space (rev u)"
  have s: "strip s = rev v" by (simp add: strip_def u_def v_def)
  show ?thesis
  proof (cases "v = []")
    case True
    with s show ?thesis by simp
  next
    case False
    then have hv: "\<not> is_space (hd v)" unfolding v_def using hd_dropWhile by blast
    from False have "rev u \<noteq> []" unfolding v_def by auto
    then have une: "u \<noteq> []" by simp
    then have hu: "\<not> is_space (hd u)" unfolding u_def using hd_dropWhile by blast
    have "suffix v (rev u)" unfolding v_def by (rule suffix_dropWhile)
    with False have "last v = last (rev u)" by (auto simp: suffix_def)
    with une have "last v = hd u" by (simp add: last_rev)
    with hu hv s False show ?thesis by (simp add: hd_rev last_rev)
  qed
qed

lemma strip_fixed: "t = [] \<or> (\<not> is_space (hd t) \<and> \<not> is_space (last t)) \<Longrightarrow> strip t = t"
proof (cases "t = []")
  case True
  then show ?thesis by (simp add: strip_def)
next
  case False
  assume "t = [] \<or> (\<not> is_space (hd t) \<and> \<not> is_space (last t))"
  with False have h: "\<not> is_space (hd t)" "\<not> is_space (last t)" by auto
  from False h(1) have "dropWhile is_space t = t" by (cases t) auto
  moreover from False h(2) have "dropWhile is_space (rev t) = rev t"
    by (cases "rev t") (auto simp: last_rev[symmetric] hd_rev)
  ultimately show ?thesis by (simp add: strip_def)
qed

lemma strip_idem: "strip (strip s) = strip s"
  using strip_ends strip_fixed by blast

lemma sublist_strip: "sublist (strip s) s"
proof -
  have "suffix (dropWhile is_space (rev (dropWhile is_space s))) (rev (dropWhile is_space s))"
    by (rule suffix_dropWhile)
  then have "prefix (strip s) (dropWhile is_space s)"
    unfolding strip_def by (metis rev_rev_ident suffix_to_prefix)
  moreover have "suffix (dropWhile is_space s) s" by (rule suffix_dropWhile)
  ultimately show ?thesis
    by (meson prefix_imp_sublist suffix_imp_sublist sublist_order.order_trans)
qed

lemma normalized_url_takeWhile: "normalized_url href = takeWhile (\<lambda>x. x \<noteq> CHR ''?'') href"
  by (simp add: normalized_url_def hd_split_char)

lemma normalized_url_no_query: "CHR ''?'' \<notin> set (normalized_url href)"
  unfolding normalized_url_takeWhile by (auto dest: set_takeWhileD)

lemma takeWhile_query: "takeWhile (\<lambda>x. x \<noteq> c) (x @ c # q) = takeWhile (\<lambda>x. x \<noteq> c) x"
  by (induction x) auto

lemma normalized_path_no_query: "CHR ''?'' \<notin> set (normalized_path href)"
proof -
  have "set (normalized_path href) \<subseteq> set (normalized_url href)"
    unfolding normalized_path_def normalized_url_def
    using set_mono_sublist[OF sublist_strip] set_last_split by blast
  then show ?thesis using normalized_url_no_query by blast
qed

lemma normalized_path_no_base: "\<not> sublist BASE_URL (normalized_path href)"
proof -
  have "BASE_URL \<noteq> []" by (simp add: BASE_URL_def)
  then have "\<not> sublist BASE_URL (last (split BASE_URL (hd (split ''?'' href))))"
    by (rule last_split_no_sep)
  then show ?thesis
    unfolding normalized_path_def
    using sublist_strip sublist_order.order_trans by blast
qed

lemma base_no_query: "CHR ''?'' \<notin> set BASE_URL"
  by (simp add: BASE_URL_def)

lemma full_url_no_query: "CHR ''?'' \<notin> set (full_url href)"
  by (simp add: full_url_def base_no_query normalized_path_no_query)

lemma takeWhile_all: "c \<notin> set s \<Longrightarrow> takeWhile (\<lambda>x. x \<noteq> c) s = s"
  by (induction s) auto

lemma normalized_path_fixed:
  assumes "CHR ''?'' \<notin> set n" "\<not> sublist BASE_URL n" "strip n = n"
  shows "normalized_path n = n" "normalized_path (BASE_URL @ n) = n"
proof -
  have ne: "BASE_URL \<noteq> []" by (simp add: BASE_URL_def)
  have a: "hd (split ''?'' n) = n" "hd (split ''?'' (BASE_URL @ n)) = BASE_URL @ n"
    using assms(1) base_no_query by (simp_all add: hd_split_char takeWhile_all)
  have b: "split BASE_URL n = [n]" using assms(2) by (rule split_no_sep)
  then have c: "split BASE_URL (BASE_URL @ n) = [[], n]" using split_prefix[OF ne] by simp
  show "normalized_path n = n" by (simp add: normalized_path_def a b assms(3))
  show "normalized_path (BASE_URL @ n) = n" by (simp add: normalized_path_def a c assms(3))
qed

lemma normalized_path_strip: "strip (normalized_path href) = normalized_path href"
  by (simp add: normalized_path_def strip_idem)

section \<open>Normalization of locators\<close>

text \<open>
  C5. Locator normalization is idempotent and insensitive to the query: for every locator
  \<open>x\<close> and every query \<open>q\<close>, normalizing \<open>x\<close> with \<open>?q\<close> appended gives what normalizing
  \<open>x\<close> gives, and normalizing twice gives what normalizing once gives. This holds for the
  artist locator \<open>full_url\<close>, for its deduplication key \<open>normalized_path\<close> and for the
  album locator \<open>normalized_url\<close>.
\<close>

theorem normalization_idempotent:
  "full_url (x @ ''?'' @ q) = full_url x
   \<and> full_url (full_url x) = full_url x
   \<and> normalized_path (x @ ''?'' @ q) = normalized_path x
   \<and> normalized_path (normalized_path x) = normalized_path x
   \<and> normalized_url (x @ ''?'' @ q) = normalized_url x
   \<and> normalized_url (normalized_url x) = normalized_url x"
proof -
  have q: "hd (split ''?'' (x @ ''?'' @ q)) = hd (split ''?'' x)"
    by (simp add: hd_split_char takeWhile_query)
  have p1: "normalized_path (x @ ''?'' @ q) = normalized_path x"
    unfolding normalized_path_def q ..
  have p2: "normalized_path (normalized_path x) = normalized_path x"
    "normalized_path (BASE_URL @ normalized_path x) = normalized_path x"
    using normalized_path_fixed normalized_path_no_query normalized_path_no_base normalized_path_strip
    by blast+
  have u1: "normalized_url (x @ ''?'' @ q) = normalized_url x"
    unfolding normalized_url_def q ..
  have u2: "normalized_url (normalized_url x) = normalized_url x"
    using normalized_url_no_query[of x] by (simp add: normalized_url_takeWhile takeWhile_all)
  show ?thesis using p1 p2 u1 u2 by (simp add: full_url_def)
qed

section \<open>\<open>safe_text\<close>\<close>

text \<open>
  C10. \<open>safe_text\<close> is total over element failures: it returns the text of the element
  with the surrounding whitespace stripped, or the empty string when reading the text
  raises a missing-element, stale-element or attribute error (a \<open>None\<close> text raises the
  attribute error); it never raises one of these three itself, and its result is a string,
  never \<open>None\<close>.
\<close>

theorem safe_text_total:
  "(\<forall>s. text_attr elem = Inr (Some s) \<longrightarrow> safe_text elem = Inr (strip s))
   \<and> (\<forall>e. text_attr elem = Inl e
          \<and> e \<in> {NoSuchElementException, StaleElementReferenceException, AttributeError}
        \<longrightarrow> safe_text elem = Inr [])
   \<and> (text_attr elem = Inr None \<longrightarrow> safe_text elem = Inr [])
   \<and> safe_text elem \<notin> {Inl NoSuchElementException, Inl StaleElementReferenceException, Inl AttributeError}"
  by (auto simp: safe_text_def text_strip_def split: sum.splits option.splits if_splits)

theorem safe_text_total_witness:
  "safe_text \<lparr>text_attr = Inr (Some ''   Clean Text ''), href_attr = Inr None\<rparr> = Inr ''Clean Text''
   \<and> safe_text \<lparr>text_attr = Inl StaleElementReferenceException, href_attr = Inr None\<rparr> = Inr []
   \<and> safe_text \<lparr>text_attr = Inr None, href_attr = Inr None\<rparr> = Inr []"
  using safe_text_total [of "\<lparr>text_attr = Inr (Some ''   Clean Text ''), href_attr = Inr None\<rparr>"]
    safe_text_total [of "\<lparr>text_attr = Inl StaleElementReferenceException, href_attr = Inr None\<rparr>"]
    safe_text_total [of "\<lparr>text_attr = Inr None, href_attr = Inr None\<rparr>"]
  by (simp add: strip_def is_space_def)

section \<open>Link discovery\<close>

lemma set_first_seen: "set (first_seen xs) = set xs"
  by (induction xs rule: first_seen.induct) auto

lemma distinct_first_seen: "distinct (first_seen xs)"
  by (induction xs rule: first_seen.induct) (auto simp: set_first_seen)

lemma first_seen_map_inj: "inj f \<Longrightarrow> first_seen (map f xs) = map f (first_seen xs)"
proof (induction xs rule: first_seen.induct)
  case 1
  then show ?case by simp
next
  case (2 x xs)
  from \<open>inj f\<close> have "filter (\<lambda>y. y \<noteq> f x) (map f xs) = map f (filter (\<lambda>y. y \<noteq> x) xs)"
    by (simp add: filter_map comp_def inj_eq)
  with 2 show ?case by simp
qed

lemma extend_upto_Nil: "extend_upto k ps [] = take k ps"
  by (simp add: extend_upto_def)

lemma extend_upto_old: "x \<in> set ps \<Longrightarrow> extend_upto k ps (x # xs) = extend_upto k ps xs"
  by (simp add: extend_upto_def)

lemma extend_upto_new: "x \<notin> set ps \<Longrightarrow> extend_upto k ps (x # xs) = extend_upto k (ps @ [x]) xs"
proof -
  assume "x \<notin> set ps"
  have "filter (\<lambda>y. y \<noteq> x) (filter (\<lambda>y. y \<notin> set ps) xs) = filter (\<lambda>y. y \<notin> set (ps @ [x])) xs"
    by (auto intro: filter_cong)
  with \<open>x \<notin> set ps\<close> show ?thesis by (simp add: extend_upto_def)
qed

lemma extend_upto_full: "k \<le> length ps \<Longrightarrow> extend_upto k ps xs = take k ps"
  by (simp add: extend_upto_def)

lemma length_extend_upto: "length (extend_upto k ps xs) \<le> k"
  by (simp add: extend_upto_def)

lemma extend_upto_append:
  "length ps \<le> k \<Longrightarrow> extend_upto k ps (xs @ ys) = extend_upto k (extend_upto k ps xs) ys"
proof (induction xs arbitrary: ps)
  case Nil
  then show ?case by (simp add: extend_upto_Nil)
next
  case (Cons x xs)
  show ?case
  proof (cases "x \<in> set ps")
    case True
    with Cons show ?thesis by (simp add: extend_upto_old)
  next
    case False
    show ?thesis
    proof (cases "length ps = k")
      case True
      then have "extend_upto k (ps @ [x]) zs = ps" for zs
        by (simp add: extend_upto_full)
      moreover from True have "extend_upto k ps ys = ps" by (simp add: extend_upto_full)
      ultimately show ?thesis using False by (simp add: extend_upto_new)
    next
      case ne: False
      with Cons.prems have "length (ps @ [x]) \<le> k" by simp
      from Cons.IH[OF this] False show ?thesis by (simp add: extend_upto_new)
    qed
  qed
qed

lemma distinct_extend_upto: "distinct ps \<Longrightarrow> distinct (extend_upto k ps xs)"
  unfolding extend_upto_def
  by (rule distinct_take) (auto simp: distinct_first_seen set_first_seen)

lemma limit_reached: "(limit \<le> int n) = (nat limit \<le> n)"
  by linarith

lemma scan_links_extend:
  "distinct ps \<Longrightarrow> length ps < nat limit \<Longrightarrow>
   scan_links limit links (set ps, map ((@) BASE_URL) ps) =
     (set (extend_upto (nat limit) ps (paths_of links)),
      map ((@) BASE_URL) (extend_upto (nat limit) ps (paths_of links)))"
proof (induction links arbitrary: ps)
  case Nil
  then show ?case by (simp add: extend_upto_Nil)
next
  case (Cons a links)
  show ?case
  proof (cases "href_attr a")
    case (Inl e)
    with Cons.prems show ?thesis by (simp add: extend_upto_Nil)
  next
    case (Inr h)
    show ?thesis
    proof (cases h)
      case None
      with Inr Cons show ?thesis by simp
    next
      case (Some href)
      show ?thesis
      proof (cases "artist_href href")
        case False
        with Inr Some Cons show ?thesis by simp
      next
        case True
        let ?n = "normalized_path href"
        show ?thesis
        proof (cases "?n \<in> set ps")
          case old: True
          with Inr Some True Cons.prems Cons.IH[of ps] show ?thesis
            by (simp add: extend_upto_old limit_reached)
        next
          case new: False
          show ?thesis
          proof (cases "nat limit \<le> Suc (length ps)")
            case full: True
            with Cons.prems have "extend_upto (nat limit) (ps @ [?n]) (paths_of links) = ps @ [?n]"
              by (simp add: extend_upto_full)
            with Inr Some True new full show ?thesis
              by (simp add: extend_upto_new limit_reached full_url_def)
          next
            case more: False
            then have l: "length (ps @ [?n]) < nat limit" by simp
            from new Cons.prems have d: "distinct (ps @ [?n])" by simp
            have "scan_links limit links (set (ps @ [?n]), map ((@) BASE_URL) (ps @ [?n])) =
              (set (extend_upto (nat limit) (ps @ [?n]) (paths_of links)),
               map ((@) BASE_URL) (extend_upto (nat limit) (ps @ [?n]) (paths_of links)))"
              by (rule Cons.IH[OF d l])
            with Inr Some True new more show ?thesis
              by (simp add: extend_upto_new limit_reached full_url_def)
          qed
        qed
      qed
    qed
  qed
qed

lemma scan_sections_extend:
  "distinct ps \<Longrightarrow> length ps \<le> nat limit \<Longrightarrow>
   scan_sections page limit sels (set ps, map ((@) BASE_URL) ps) =
     (let ps' = extend_upto (nat limit) ps
                  (map normalized_path (filter artist_href (concat (map (section_hrefs page) sels))))
      in (set ps', map ((@) BASE_URL) ps'))"
proof (induction sels arbitrary: ps)
  case Nil
  then show ?case by (simp add: extend_upto_Nil)
next
  case (Cons sel sels)
  let ?xs = "map normalized_path (filter artist_href (section_hrefs page sel))"
  let ?ys = "map normalized_path (filter artist_href (concat (map (section_hrefs page) sels)))"
  have split_all: "map normalized_path (filter artist_href (concat (map (section_hrefs page) (sel # sels)))) = ?xs @ ?ys"
    by simp
  show ?case
  proof (cases "nat limit \<le> length ps")
    case True
    with Cons.prems show ?thesis
      by (simp add: limit_reached extend_upto_full Let_def del: concat.simps map_append filter_append)
  next
    case False
    then have lt: "length ps < nat limit" by simp
    let ?ps1 = "extend_upto (nat limit) ps ?xs"
    have step: "scan_sections page limit (sel # sels) (set ps, map ((@) BASE_URL) ps) =
       scan_sections page limit sels (set ?ps1, map ((@) BASE_URL) ?ps1)"
    proof (cases "find_section page sel")
      case (Inl e)
      with False Cons.prems show ?thesis
        by (simp add: limit_reached section_hrefs_def extend_upto_Nil)
    next
      case (Inr cl)
      show ?thesis
      proof (cases "find_links cl")
        case (Inl e)
        with Inr False Cons.prems show ?thesis
          by (simp add: limit_reached section_hrefs_def extend_upto_Nil)
      next
        case links: (Inr links)
        with Inr False scan_links_extend[OF Cons.prems(1) lt, of links] show ?thesis
          by (simp add: limit_reached section_hrefs_def)
      qed
    qed
    have "distinct ?ps1" using Cons.prems(1) by (rule distinct_extend_upto)
    moreover have "length ?ps1 \<le> nat limit" by (rule length_extend_upto)
    ultimately have "scan_sections page limit sels (set ?ps1, map ((@) BASE_URL) ?ps1) =
       (let ps' = extend_upto (nat limit) ?ps1 ?ys in (set ps', map ((@) BASE_URL) ps'))"
      by (rule Cons.IH)
    with step show ?thesis
      unfolding split_all using extend_upto_append[OF Cons.prems(2), of ?xs ?ys] by simp
  qed
qed

lemma inj_base: "inj ((@) BASE_URL)"
  by (simp add: inj_def)

lemma discovered:
  "snd (scan_sections page limit LIST_SELECTORS ({}, [])) =
     take (nat limit) (first_seen (map full_url (filter artist_href (candidate_hrefs page))))"
proof -
  let ?xs = "map normalized_path (filter artist_href (candidate_hrefs page))"
  have "scan_sections page limit LIST_SELECTORS (set [], map ((@) BASE_URL) []) =
     (let ps' = extend_upto (nat limit) [] ?xs in (set ps', map ((@) BASE_URL) ps'))"
    unfolding candidate_hrefs_def by (rule scan_sections_extend) simp_all
  then have "snd (scan_sections page limit LIST_SELECTORS ({}, [])) =
      map ((@) BASE_URL) (take (nat limit) (first_seen ?xs))"
    by (simp add: Let_def extend_upto_def)
  also have "\<dots> = take (nat limit) (first_seen (map ((@) BASE_URL) ?xs))"
    by (simp only: take_map first_seen_map_inj[OF inj_base])
  also have "map ((@) BASE_URL) ?xs = map full_url (filter artist_href (candidate_hrefs page))"
    by (simp add: full_url_def comp_def)
  finally show ?thesis .
qed

text \<open>
  C4. For every genre page, with duplicates by normalized form anywhere in its sections,
  the output of link discovery holds each normalized locator at most once, in the order
  of first occurrence: the sections in the order given, the links of a section in
  document order, the first normalized form standing for its duplicates; the cap cuts this
  list to its first \<open>limit\<close> entries. When the first section never appears the output
  is empty.
\<close>

theorem discovery_first_seen:
  assumes "get_artists_by_genre driver genre_slug limit = Inr artists"
  shows "distinct artists
    \<and> artists =
        (case wait_first_section (driver (BASE_URL @ ''/genre/'' @ genre_slug)) of
           Some e \<Rightarrow> []
         | None \<Rightarrow>
             take (nat limit)
               (first_seen (map full_url (filter artist_href
                  (candidate_hrefs (driver (BASE_URL @ ''/genre/'' @ genre_slug)))))))"
proof -
  let ?page = "driver (BASE_URL @ ''/genre/'' @ genre_slug)"
  from assms have eq: "artists =
        (case wait_first_section ?page of
           Some e \<Rightarrow> []
         | None \<Rightarrow> take (nat limit) (first_seen (map full_url (filter artist_href (candidate_hrefs ?page)))))"
    by (auto simp: get_artists_by_genre_def Let_def discovered split: option.splits)
  moreover have "distinct artists"
    unfolding eq by (auto simp: distinct_first_seen split: option.splits)
  ultimately show ?thesis by blast
qed

theorem discovery_first_seen_witness:
  "get_artists_by_genre (\<lambda>url. two_sections) ''rock'' 3 =
     Inr [''https://www.discogs.com/artist/1-A'', ''https://www.discogs.com/artist/2-B'',
          ''https://www.discogs.com/artist/3-C'']
   \<and> distinct [''https://www.discogs.com/artist/1-A'', ''https://www.discogs.com/artist/2-B'',
          ''https://www.discogs.com/artist/3-C'']
   \<and> [''https://www.discogs.com/artist/1-A'', ''https://www.discogs.com/artist/2-B'',
          ''https://www.discogs.com/artist/3-C''] =
        (case wait_first_section two_sections of
           Some e \<Rightarrow> []
         | None \<Rightarrow>
             take (nat 3)
               (first_seen (map full_url (filter artist_href (candidate_hrefs two_sections)))))"
proof -
  have run: "get_artists_by_genre (\<lambda>url. two_sections) ''rock'' 3 =
     Inr [''https://www.discogs.com/artist/1-A'', ''https://www.discogs.com/artist/2-B'',
          ''https://www.discogs.com/artist/3-C'']"
    by code_simp
  from discovery_first_seen [OF run] run show ?thesis by blast
qed

section \<open>The shape of the locators\<close>

lemma full_url_prefix: "prefix BASE_URL (full_url href)"
  by (simp add: full_url_def)

lemma scan_album_links_set:
  "scan_album_links album_limit links (seen, acc) = Inr (seen', acc') \<Longrightarrow>
   set acc' \<subseteq> set acc \<union> range normalized_url"
proof (induction links arbitrary: seen acc)
  case Nil
  then show ?case by auto
next
  case (Cons a links)
  show ?case
  proof (cases "href_attr a")
    case (Inl e)
    with Cons.prems show ?thesis by simp
  next
    case (Inr h)
    show ?thesis
    proof (cases h)
      case None
      with Inr Cons show ?thesis by simp
    next
      case (Some href)
      with Inr Cons.prems Cons.IH[of seen acc]
        Cons.IH[of "insert (normalized_url href) seen" "acc @ [normalized_url href]"]
      show ?thesis
        by (auto split: if_splits)
    qed
  qed
qed

lemma collect_album_links_range: "set (collect_album_links page album_limit) \<subseteq> range normalized_url"
proof (cases "candidate_links page")
  case (Inl e)
  then show ?thesis by (simp add: collect_album_links_def)
next
  case (Inr links)
  show ?thesis
  proof (cases "scan_album_links album_limit links ({}, [])")
    case (Inl e)
    with Inr show ?thesis by (simp add: collect_album_links_def)
  next
    case st: (Inr st)
    obtain seen' acc' where "st = (seen', acc')" by (cases st)
    with st scan_album_links_set[of album_limit links "{}" "[]" seen' acc'] Inr
    show ?thesis by (simp add: collect_album_links_def)
  qed
qed

text \<open>
  C9. Every locator in the output of link discovery is the base prefix followed by the
  normalized path of an artist link of the page and holds no \<open>?\<close>; every collected
  album link is the normalized form of a link target and holds no \<open>?\<close> either.
\<close>

theorem locators_without_query:
  "(get_artists_by_genre driver genre_slug limit = Inr artists \<longrightarrow>
      (\<forall>u \<in> set artists.
         (\<exists>href \<in> set (candidate_hrefs (driver (BASE_URL @ ''/genre/'' @ genre_slug))).
            artist_href href \<and> u = BASE_URL @ normalized_path href)
         \<and> prefix BASE_URL u \<and> CHR ''?'' \<notin> set u))
   \<and> (\<forall>u \<in> set (collect_album_links page album_limit).
         (\<exists>href. u = normalized_url href) \<and> CHR ''?'' \<notin> set u)"
proof (intro conjI impI ballI)
  fix u
  assume run: "get_artists_by_genre driver genre_slug limit = Inr artists" and u: "u \<in> set artists"
  let ?page = "driver (BASE_URL @ ''/genre/'' @ genre_slug)"
  from run u have "u \<in> set (take (nat limit)
      (first_seen (map full_url (filter artist_href (candidate_hrefs ?page)))))"
    by (auto simp: get_artists_by_genre_def Let_def discovered split: option.splits)
  then have "u \<in> set (first_seen (map full_url (filter artist_href (candidate_hrefs ?page))))"
    by (rule in_set_takeD)
  then obtain href where h: "href \<in> set (candidate_hrefs ?page)" "artist_href href" "u = full_url href"
    by (auto simp: set_first_seen)
  then show "\<exists>href \<in> set (candidate_hrefs ?page). artist_href href \<and> u = BASE_URL @ normalized_path href"
    by (auto simp: full_url_def)
  from h show "prefix BASE_URL u" by (simp add: full_url_prefix)
  from h show "CHR ''?'' \<notin> set u" by (simp add: full_url_no_query)
next
  fix u
  assume "u \<in> set (collect_album_links page album_limit)"
  then obtain href where h: "u = normalized_url href"
    using collect_album_links_range by blast
  then show "\<exists>href. u = normalized_url href" by blast
  from h show "CHR ''?'' \<notin> set u" by (simp add: normalized_url_no_query)
qed

theorem locators_without_query_witness:
  "get_artists_by_genre (\<lambda>url. two_sections) ''rock'' 2 =
     Inr [''https://www.discogs.com/artist/1-A'', ''https://www.discogs.com/artist/2-B'']
   \<and> collect_album_links test_band 2 = [''/release/100'', ''/master/200'']
   \<and> prefix BASE_URL ''https://www.discogs.com/artist/1-A''
   \<and> CHR ''?'' \<notin> set ''https://www.discogs.com/artist/1-A''
   \<and> prefix BASE_URL ''https://www.discogs.com/artist/2-B''
   \<and> CHR ''?'' \<notin> set ''https://www.discogs.com/artist/2-B''
   \<and> CHR ''?'' \<notin> set ''/release/100''
   \<and> CHR ''?'' \<notin> set ''/master/200''"
proof -
  have run: "get_artists_by_genre (\<lambda>url. two_sections) ''rock'' 2 =
     Inr [''https://www.discogs.com/artist/1-A'', ''https://www.discogs.com/artist/2-B'']"
    by code_simp
  have links: "collect_album_links test_band 2 = [''/release/100'', ''/master/200'']"
    by code_simp
  from locators_without_query [of "\<lambda>url. two_sections" "''rock''" 2 _ test_band 2] run links
  show ?thesis by simp
qed

section \<open>The caps\<close>

text \<open>
  Link discovery returns at most \<open>limit\<close> locators for every cap; the album collection
  holds at most \<open>album_limit\<close> albums for every positive cap.
\<close>

lemma discovery_cap:
  "get_artists_by_genre driver genre_slug limit = Inr artists \<Longrightarrow> length artists \<le> nat limit"
  by (auto simp: get_artists_by_genre_def Let_def discovered split: option.splits)

lemma scan_album_links_cap:
  "scan_album_links album_limit links (seen, acc) = Inr (seen', acc') \<Longrightarrow>
   int (length acc) < album_limit \<Longrightarrow> int (length acc') \<le> album_limit"
proof (induction links arbitrary: seen acc)
  case Nil
  then show ?case by auto
next
  case (Cons a links)
  show ?case
  proof (cases "href_attr a")
    case (Inl e)
    with Cons.prems show ?thesis by simp
  next
    case (Inr h)
    show ?thesis
    proof (cases h)
      case None
      with Inr Cons show ?thesis by simp
    next
      case (Some href)
      with Inr Cons.prems Cons.IH[of seen acc]
        Cons.IH[of "insert (normalized_url href) seen" "acc @ [normalized_url href]"]
      show ?thesis
        by (auto split: if_splits)
    qed
  qed
qed

lemma collect_album_links_cap:
  "0 < album_limit \<Longrightarrow> int (length (collect_album_links page album_limit)) \<le> album_limit"
proof (cases "candidate_links page")
  case (Inl e)
  assume "0 < album_limit"
  with Inl show ?thesis by (simp add: collect_album_links_def)
next
  case (Inr links)
  assume pos: "0 < album_limit"
  show ?thesis
  proof (cases "scan_album_links album_limit links ({}, [])")
    case (Inl e)
    with Inr pos show ?thesis by (simp add: collect_album_links_def)
  next
    case st: (Inr st)
    obtain seen' acc' where "st = (seen', acc')" by (cases st)
    with st scan_album_links_cap[of album_limit links "{}" "[]" seen' acc'] Inr pos
    show ?thesis by (simp add: collect_album_links_def)
  qed
qed

lemma collect_albums_sources:
  "collect_albums d urls acc = Inr albums' \<Longrightarrow>
   length albums' \<le> length acc + length urls"
proof (induction urls arbitrary: acc)
  case Nil
  then show ?case by simp
next
  case (Cons u urls)
  show ?case
  proof (cases "get_album_data d u")
    case (Inl e)
    with Cons.prems show ?thesis by simp
  next
    case (Inr r)
    with Cons.prems Cons.IH[of acc] Cons.IH[of "acc @ [the r]"] show ?thesis
      by (cases r) (auto split: if_splits)
  qed
qed

lemma album_cap_positive:
  "0 < album_limit \<Longrightarrow> get_artist_data d artist_url g album_limit = Inr (Some r) \<Longrightarrow>
   int (length (albums r)) \<le> album_limit"
proof -
  assume pos: "0 < album_limit" and run: "get_artist_data d artist_url g album_limit = Inr (Some r)"
  let ?links = "collect_album_links (artist_doc d artist_url) album_limit"
  from run have "collect_albums (album_doc d) ?links [] = Inr (albums r)"
    by (auto simp: get_artist_data_def Let_def split: option.splits sum.splits)
  then have "length (albums r) \<le> length ?links" using collect_albums_sources by fastforce
  with collect_album_links_cap[OF pos, of "artist_doc d artist_url"] show ?thesis by linarith
qed

text \<open>
  C3. For every cap \<open>k\<close>, link discovery returns at most \<open>k\<close> locators and the album
  collection of the artist extractor holds at most \<open>k\<close> albums. The album loop tests its
  cap only after it has appended a link: with the cap 0 and the four album links of the
  test document, one album is collected.
\<close>

theorem album_cap_zero:
  "get_artist_data (test_driver test_band) ''url'' ''Rock'' 0 =
     Inr (Some
       \<lparr>genre = ''Rock'', artist_name = Some ''The Test Band'',
        members = {''Member A''}, websites = [''https://test.com/site''],
        albums =
          [\<lparr>album_name = None, release_year = None, label = None,
            styles = [], tracks = [], source_url = ''/release/100''\<rparr>],
        artist_source_url = ''url''\<rparr>)"
  by code_simp

section \<open>The release year\<close>

text \<open>
  The fallback takes what \<open>findall\<close> returns for the capturing group \<open>(19|20)\<close>, so
  the year it gives has two characters.
\<close>

lemma findall_year_prefixes: "y \<in> set (findall_year prevw s) \<Longrightarrow> y = ''19'' \<or> y = ''20''"
proof (induction prevw s rule: findall_year.induct)
  case (1 prevw)
  then show ?case by simp
next
  case (2 prevw c cs)
  show ?case
  proof (cases "\<not> prevw \<and> year_at (c # cs)")
    case True
    then have "take 2 (c # cs) = ''19'' \<or> take 2 (c # cs) = ''20''"
      by (auto simp: year_at_def prefix_def)
    with True 2 show ?thesis by auto
  next
    case False
    with 2 show ?thesis by auto
  qed
qed

lemma fallback_year_prefix: "fallback_year page_html = Some y \<Longrightarrow> y = ''19'' \<or> y = ''20''"
  using findall_year_prefixes[of y False page_html]
  by (auto simp: fallback_year_def split: list.splits)

text \<open>
  C1. When the primary strategy for the release year raises or finds nothing and the
  snapshot holds a four-digit token that begins with 19 or 20, the release year of the
  record is the first such token. On a loaded album document without a year cell and
  with the snapshot \<open>Released 1999\<close>, the record has the release year \<open>19\<close>.
\<close>

theorem fallback_year_two_digits:
  "get_album_data (\<lambda>url. bare_album ''Released 1999'') ''/release/1'' =
     Inr (Some
       \<lparr>album_name = None, release_year = Some ''19'', label = None,
        styles = [], tracks = [], source_url = ''/release/1''\<rparr>)"
  by code_simp

section \<open>When album extraction gives no record\<close>

text \<open>
  \<open>get_album_data\<close> returns \<open>None\<close> exactly when \<open>driver.get\<close> raises; what the wait
  for the heading answers changes nothing; when the snapshot and the album name can be
  read, a record is returned.
\<close>

lemma get_album_data_None:
  "(get_album_data driver album_url = Inr None) = (album_get (driver album_url) \<noteq> None)"
  by (auto simp: get_album_data_def Let_def split: option.splits sum.splits)

lemma extract_wait:
  "extract_album_name (page\<lparr>album_wait_h1 := w\<rparr>) = extract_album_name page"
  "extract_release_year (page\<lparr>album_wait_h1 := w\<rparr>) page_html = extract_release_year page page_html"
  "extract_label (page\<lparr>album_wait_h1 := w\<rparr>) = extract_label page"
  "extract_styles (page\<lparr>album_wait_h1 := w\<rparr>) = extract_styles page"
  "extract_tracks (page\<lparr>album_wait_h1 := w\<rparr>) name = extract_tracks page name"
  by (simp_all add: extract_album_name_def extract_release_year_def
      primary_year_def extract_label_def extract_styles_def extract_tracks_def
      split: sum.splits list.splits option.splits)

lemma get_album_data_wait:
  "get_album_data (\<lambda>url. (driver url)\<lparr>album_wait_h1 := w\<rparr>) album_url = get_album_data driver album_url"
  by (simp add: get_album_data_def Let_def extract_wait split: sum.splits option.splits)

lemma get_album_data_record:
  "album_get (driver album_url) = None \<Longrightarrow> page_source (driver album_url) = Inr page_html \<Longrightarrow>
   extract_album_name (driver album_url) = Inr name \<Longrightarrow>
   \<exists>r. get_album_data driver album_url = Inr (Some r) \<and> album_name r = name"
  by (simp add: get_album_data_def Let_def)

text \<open>
  C8. \<open>get_album_data\<close> returns \<open>None\<close> exactly when the navigation fails, a heading
  that times out is tolerated, and any other failure while a field or the tracklist is
  extracted degrades to an empty field. The album name is read outside every \<open>try\<close>:
  on a document whose heading is found by \<open>find_elements\<close> and not by the
  \<open>find_element\<close> that follows, the exception leaves \<open>get_album_data\<close>, and no record
  is returned.
\<close>

theorem album_name_unguarded:
  "get_album_data (\<lambda>url. vanishing_heading) ''/release/1'' = Inl NoSuchElementException"
  by code_simp

section \<open>Track numbers\<close>








section \<open>The integrity filter\<close>

text \<open>
  The names that the loop extracts come out of \<open>safe_text\<close>, so they carry no final
  newline, and the regular expression \<open>^\d+$\<close> matches exactly the names that are digits
  only.
\<close>


lemma safe_text_stripped: "safe_text el = Inr t \<Longrightarrow> t = [] \<or> \<not> is_space (last t)"
  using strip_ends
  by (auto simp: safe_text_def text_strip_def split: sum.splits option.splits if_splits)

lemma first_text_stripped:
  "first_text dur_raw ts = Inr (Some n) \<Longrightarrow> n = [] \<or> \<not> is_space (last n)"
proof (induction ts)
  case Nil
  then show ?case by simp
next
  case (Cons t ts)
  show ?case
  proof (cases "safe_text t")
    case (Inl e)
    with Cons.prems show ?thesis by simp
  next
    case (Inr ttxt)
    with Cons safe_text_stripped[OF Inr] show ?thesis by (auto split: if_splits)
  qed
qed

lemma row_name_stripped:
  "row_name dur_raw r = Inr (Some n) \<Longrightarrow> n = [] \<or> \<not> is_space (last n)"
proof -
  assume a: "row_name dur_raw r = Inr (Some n)"
  show ?thesis
  proof (cases "title_elem r")
    case (Inl e)
    with a first_text_stripped show ?thesis
      by (auto simp: row_name_def split: sum.splits if_splits)
  next
    case (Inr t)
    with a first_text_stripped safe_text_stripped show ?thesis
      by (auto simp: row_name_def split: sum.splits if_splits)
  qed
qed

lemma newline_is_space: "is_space (CHR 0x0A)"
  by (simp add: is_space_def)

lemma match_digits_stripped:
  assumes "n = [] \<or> \<not> is_space (last n)"
  shows "match_digits n = purely_numeric n"
proof
  assume m: "match_digits n"
  then have t: "takeWhile is_digit n \<noteq> []"
    and d: "dropWhile is_digit n = [] \<or> dropWhile is_digit n = [CHR 0x0A]"
    by (simp_all add: match_digits_def Let_def)
  from t have ne: "n \<noteq> []" by auto
  have n: "n = takeWhile is_digit n @ dropWhile is_digit n" by simp
  from d show "purely_numeric n"
  proof
    assume "dropWhile is_digit n = []"
    then have "\<forall>x \<in> set n. is_digit x" by (simp add: dropWhile_eq_Nil_conv)
    with ne show ?thesis by (simp add: purely_numeric_def list_all_iff)
  next
    assume "dropWhile is_digit n = [CHR 0x0A]"
    with n have "last n = CHR 0x0A" by (metis last_snoc)
    with assms ne newline_is_space show ?thesis by simp
  qed
next
  assume "purely_numeric n"
  then have "n \<noteq> []" "\<forall>x \<in> set n. is_digit x"
    by (simp_all add: purely_numeric_def list_all_iff)
  then show "match_digits n"
    by (simp add: match_digits_def Let_def takeWhile_eq_all_conv[THEN iffD2] dropWhile_eq_Nil_conv)
qed

lemma integrity_filter_amended:
  "row_name dur_raw r = Inr name \<Longrightarrow> integrity_filter a name = amended_discard a name"
proof (cases name)
  case None
  then show ?thesis by (simp add: integrity_filter_def amended_discard_def)
next
  case (Some n)
  assume "row_name dur_raw r = Inr name"
  with Some have "n = [] \<or> \<not> is_space (last n)" using row_name_stripped by blast
  then have "match_digits n = purely_numeric n" by (rule match_digits_stripped)
  with Some show ?thesis by (simp add: integrity_filter_def amended_discard_def)
qed

lemma no_duration_cell: "dur_elem r = Inl NoSuchElementException \<Longrightarrow> row_duration r = Inr None"
  by (simp add: row_duration_def)

text \<open>
  C2, as amended. For a row whose queries raise nothing but a missing element, the row is
  discarded (the state of the loop, counter and tracks, is unchanged) exactly when its
  name is missing or empty, is purely numeric, or the album has a non-empty name that the
  track name contains while being fewer than ten characters longer; otherwise one track
  with the current number is appended and the counter advances. A row named \<open>12\<close> is
  discarded, a row whose name equals the album name is discarded, and a row without a
  duration element has the duration \<open>None\<close>.
\<close>

theorem integrity_filter_rows:
  "row_duration r = Inr dur_raw \<Longrightarrow> row_name dur_raw r = Inr name \<Longrightarrow>
   track_step album_name_raw r st =
     Inr (if amended_discard album_name_raw name then st
          else (fst st + 1,
                snd st @ [\<lparr>track_number = fst st, track_name = the name, duration = dur_raw\<rparr>]))
   \<and> (track_step album_name_raw r st = Inr st) = amended_discard album_name_raw name
   \<and> (name = Some ''12'' \<longrightarrow> track_step album_name_raw r st = Inr st)
   \<and> (name = album_name_raw \<longrightarrow> track_step album_name_raw r st = Inr st)
   \<and> (dur_elem r = Inl NoSuchElementException \<longrightarrow> dur_raw = None)"
proof -
  assume d: "row_duration r = Inr dur_raw" and n: "row_name dur_raw r = Inr name"
  have f: "integrity_filter album_name_raw name = amended_discard album_name_raw name"
    using n by (rule integrity_filter_amended)
  have step: "track_step album_name_raw r st =
     Inr (if amended_discard album_name_raw name then st
          else (fst st + 1,
                snd st @ [\<lparr>track_number = fst st, track_name = the name, duration = dur_raw\<rparr>]))"
    using d n f by (simp add: track_step_def)
  have iff: "(track_step album_name_raw r st = Inr st) = amended_discard album_name_raw name"
    unfolding step by (cases st) auto
  have twelve: "amended_discard album_name_raw (Some ''12'')"
    by (simp add: amended_discard_def purely_numeric_def is_digit_def)
  have same: "amended_discard album_name_raw album_name_raw"
    by (auto simp: amended_discard_def split: option.splits)
  have nodur: "dur_raw = None" if "dur_elem r = Inl NoSuchElementException"
    using d no_duration_cell[OF that] by simp
  from step iff twelve same nodur show ?thesis by auto
qed

theorem integrity_filter_rows_witness:
  "row_duration (title_row ''Yesterday'') = Inr None
   \<and> row_name None (title_row ''Yesterday'') = Inr (Some ''Yesterday'')
   \<and> \<not> amended_discard (Some ''Help'') (Some ''Yesterday'')
   \<and> track_step (Some ''Help'') (title_row ''Yesterday'') (1, []) =
       Inr (2, [\<lparr>track_number = 1, track_name = ''Yesterday'', duration = None\<rparr>])
   \<and> row_name None (title_row ''12'') = Inr (Some ''12'')
   \<and> track_step (Some ''Help'') (title_row ''12'') (1, []) = Inr (1, [])
   \<and> row_name None (title_row ''Help'') = Inr (Some ''Help'')
   \<and> track_step (Some ''Help'') (title_row ''Help'') (1, []) = Inr (1, [])"
proof -
  have d: "row_duration (title_row t) = Inr None" for t
    by (simp add: row_duration_def title_row_def)
  have n1: "row_name None (title_row ''Yesterday'') = Inr (Some ''Yesterday'')" by code_simp
  have n2: "row_name None (title_row ''12'') = Inr (Some ''12'')" by code_simp
  have n3: "row_name None (title_row ''Help'') = Inr (Some ''Help'')" by code_simp
  have k: "\<not> amended_discard (Some ''Help'') (Some ''Yesterday'')" by code_simp
  from integrity_filter_rows [OF d n1, of "Some ''Help''" "(1, [])"] k
  have s1: "track_step (Some ''Help'') (title_row ''Yesterday'') (1, []) =
       Inr (2, [\<lparr>track_number = 1, track_name = ''Yesterday'', duration = None\<rparr>])"
    by simp
  from integrity_filter_rows [OF d n2, of "Some ''Help''" "(1, [])"]
  have s2: "track_step (Some ''Help'') (title_row ''12'') (1, []) = Inr (1, [])"
    by blast
  from integrity_filter_rows [OF d n3, of "Some ''Help''" "(1, [])"]
  have s3: "track_step (Some ''Help'') (title_row ''Help'') (1, []) = Inr (1, [])"
    by blast
  from d n1 n2 n3 k s1 s2 s3 show ?thesis by blast
qed

text \<open>
  The filter as the specification words it discards a name that is exactly ten characters
  longer than the album name, and every short name when the album name is empty; the loop
  emits a track for both.
\<close>

theorem stated_filter_counterexample:
  "stated_discard (Some ''Help'') (Some ''Help (Reprise)'')
   \<and> row_duration (title_row ''Help (Reprise)'') = Inr None
   \<and> row_name None (title_row ''Help (Reprise)'') = Inr (Some ''Help (Reprise)'')
   \<and> track_step (Some ''Help'') (title_row ''Help (Reprise)'') (1, []) =
       Inr (2, [\<lparr>track_number = 1, track_name = ''Help (Reprise)'', duration = None\<rparr>])
   \<and> stated_discard (Some []) (Some ''Yesterday'')
   \<and> track_step (Some []) (title_row ''Yesterday'') (1, []) =
       Inr (2, [\<lparr>track_number = 1, track_name = ''Yesterday'', duration = None\<rparr>])"
  by code_simp

section \<open>When artist extraction gives no record\<close>

lemma get_artist_data_None:
  "(get_artist_data d artist_url g album_limit = Inr None) =
     (artist_get (artist_doc d artist_url) \<noteq> None \<or> artist_wait_h1 (artist_doc d artist_url) \<noteq> None)"
  by (auto simp: get_artist_data_def Let_def split: option.splits sum.splits)

lemma collect_albums_returns:
  "\<forall>u \<in> set urls. \<forall>e. get_album_data driver u \<noteq> Inl e \<Longrightarrow> \<exists>albums'. collect_albums driver urls acc = Inr albums'"
proof (induction urls arbitrary: acc)
  case Nil
  then show ?case by simp
next
  case (Cons u urls)
  then show ?case by (cases "get_album_data driver u") (auto split: option.splits)
qed

lemma get_album_data_raises:
  "get_album_data driver album_url = Inl e \<Longrightarrow>
   page_source (driver album_url) = Inl e \<or> extract_album_name (driver album_url) = Inl e"
  by (auto simp: get_album_data_def Let_def split: option.splits sum.splits)

lemma collect_albums_raises:
  "collect_albums driver urls acc = Inl e \<Longrightarrow> \<exists>u \<in> set urls. get_album_data driver u = Inl e"
proof (induction urls arbitrary: acc)
  case Nil
  then show ?case by simp
next
  case (Cons u urls)
  then show ?case by (cases "get_album_data driver u") (auto split: option.splits)
qed

lemma get_artist_data_raises:
  "get_artist_data d artist_url g album_limit = Inl e \<Longrightarrow>
   \<exists>u \<in> set (collect_album_links (artist_doc d artist_url) album_limit).
     get_album_data (album_doc d) u = Inl e"
  using collect_albums_raises
  by (fastforce simp: get_artist_data_def Let_def split: option.splits sum.splits)

text \<open>
  When the artist document has loaded and no extraction of a collected album raises, a
  record is returned whatever the queries for the name, the members, the websites and the
  album links answer: a query that raises leaves \<open>None\<close>, the empty set, the empty
  list, no album.
\<close>

lemma get_artist_data_record:
  assumes "artist_get (artist_doc d artist_url) = None"
    and "artist_wait_h1 (artist_doc d artist_url) = None"
    and "\<forall>u \<in> set (collect_album_links (artist_doc d artist_url) album_limit).
           \<forall>e. get_album_data (album_doc d) u \<noteq> Inl e"
  shows "\<exists>r. get_artist_data d artist_url g album_limit = Inr (Some r)
           \<and> (\<forall>e. artist_h1 (artist_doc d artist_url) = Inl e \<longrightarrow> artist_name r = None)
           \<and> (\<forall>e. member_links (artist_doc d artist_url) = Inl e \<longrightarrow> members r = {})
           \<and> (\<forall>e. site_links (artist_doc d artist_url) = Inl e \<longrightarrow> websites r = [])
           \<and> (\<forall>e. candidate_links (artist_doc d artist_url) = Inl e \<longrightarrow> albums r = [])"
proof -
  let ?page = "artist_doc d artist_url"
  from assms(3) obtain albums' where
    c: "collect_albums (album_doc d) (collect_album_links ?page album_limit) [] = Inr albums'"
    using collect_albums_returns by blast
  let ?r = "\<lparr>genre = g, artist_name = extract_artist_name ?page, members = extract_members ?page,
             websites = extract_websites ?page, albums = albums', artist_source_url = artist_url\<rparr>"
  from assms(1,2) c have run: "get_artist_data d artist_url g album_limit = Inr (Some ?r)"
    by (simp add: get_artist_data_def Let_def)
  have "albums' = []" if "candidate_links ?page = Inl e" for e
    using c that by (simp add: collect_album_links_def)
  with run show ?thesis
    by (auto simp: extract_artist_name_def extract_members_def extract_websites_def)
qed

lemma broken_fields_recovered:
  "get_artist_data (test_driver broken_fields) ''url'' ''Rock'' 2 =
     Inr (Some
       \<lparr>genre = ''Rock'', artist_name = None, members = {}, websites = [], albums = [],
        artist_source_url = ''url''\<rparr>)"
  by code_simp

text \<open>
  C7. \<open>get_artist_data\<close> reports failure exactly when the navigation fails or the
  heading never appears in time, and in every other case a composed record is returned.
  The loop over the album links calls \<open>get_album_data\<close> outside every \<open>try\<close>: on the
  loaded artist document of the test, whose album documents have a heading that
  \<open>find_elements\<close> finds and the \<open>find_element\<close> that follows does not, the exception
  of the album name leaves \<open>get_artist_data\<close>, which returns neither the failure signal
  nor a record.
\<close>

theorem album_exception_leaves_artist:
  "artist_get test_band = None \<and> artist_wait_h1 test_band = None
   \<and> get_artist_data
        \<lparr>artist_doc = (\<lambda>url. test_band), album_doc = (\<lambda>url. vanishing_heading)\<rparr>
        ''url'' ''Rock'' 2 = Inl NoSuchElementException"
  by code_simp

end
